theory Spec2Isabelle
  imports Complex_Main "HOL-Library.Sublist"
begin

section \<open>Populating the road accidents database: \<open>src/data/db/db_tasks.py\<close>\<close>

text \<open>
  A shallow embedding of \<^verbatim>\<open>db_tasks.py\<close>. The module initialises the relational
  schema (\<^verbatim>\<open>init_db\<close>), registers the discovered raw CSV files in a ledger table
  (\<^verbatim>\<open>update_raw_accidents_csv_files_table\<close>) and loads every file into its entity
  table (\<^verbatim>\<open>add_data_to_db\<close>, \<^verbatim>\<open>_add_data_to_table\<close>).

  Exceptions are values: a function that can raise returns the raised exception (if any)
  together with the state it leaves behind, because the module catches exceptions and
  goes on with the state the failed call left.
\<close>

subsection \<open>Exceptions\<close>

text \<open>
  The classes the module distinguishes: \<^verbatim>\<open>OperationalError\<close> (caught by name in
  \<^verbatim>\<open>init_db\<close>), SQLAlchemy's \<^verbatim>\<open>PendingRollbackError\<close> (raised by a session whose
  flush failed and that was not rolled back), the \<^verbatim>\<open>RuntimeError\<close> the module raises
  itself, and any other subclass of \<^verbatim>\<open>Exception\<close>. The string is \<^verbatim>\<open>str(e)\<close>.
\<close>

datatype exc_class = OperationalError | PendingRollbackError | RuntimeError | OtherException

datatype exn = Exn exc_class string

fun exn_class :: "exn \<Rightarrow> exc_class" where
  "exn_class (Exn c m) = c"

fun str :: "exn \<Rightarrow> string" where
  "str (Exn c m) = m"

subsection \<open>The connection URL (lines 21-31)\<close>

text \<open>
  \<^verbatim>\<open>os.getenv\<close> returns \<^verbatim>\<open>None\<close> for a variable that is not set, and
  \<^verbatim>\<open>str.format\<close> renders \<^verbatim>\<open>None\<close> as the text \<^verbatim>\<open>None\<close>. The module reads
  \<^verbatim>\<open>POSTGRES_PORT\<close> into \<^verbatim>\<open>port\<close> and then passes the literal \<^verbatim>\<open>port=5432\<close> to
  \<^verbatim>\<open>format\<close>.
\<close>

type_synonym environ = "string \<rightharpoonup> string"

definition getenv :: "environ \<Rightarrow> string \<Rightarrow> string option" where
  "getenv env name = env name"

fun format_field :: "string option \<Rightarrow> string" where
  "format_field None = ''None''"
| "format_field (Some v) = v"

definition db_url :: "environ \<Rightarrow> string" where
  "db_url env =
     (let host = getenv env ''POSTGRES_HOST'';
          database = getenv env ''POSTGRES_DB'';
          user = getenv env ''POSTGRES_USER'';
          password = getenv env ''POSTGRES_PASSWORD'';
          port = getenv env ''POSTGRES_PORT''
      in ''postgresql+psycopg2://'' @ format_field user @ '':'' @ format_field password
           @ ''@'' @ format_field host @ '':'' @ ''5432'' @ ''/'' @ format_field database)"

text \<open>
  What the claim describes: the same template with the \<^verbatim>\<open>port\<close> read from the
  environment in the port position.
\<close>

definition db_url_from_settings :: "environ \<Rightarrow> string" where
  "db_url_from_settings env =
     ''postgresql+psycopg2://'' @ format_field (getenv env ''POSTGRES_USER'') @ '':''
       @ format_field (getenv env ''POSTGRES_PASSWORD'') @ ''@''
       @ format_field (getenv env ''POSTGRES_HOST'') @ '':''
       @ format_field (getenv env ''POSTGRES_PORT'') @ ''/''
       @ format_field (getenv env ''POSTGRES_DB'')"

definition example_env :: environ where
  "example_env =
     [''POSTGRES_HOST'' \<mapsto> ''db'', ''POSTGRES_DB'' \<mapsto> ''accidents'',
      ''POSTGRES_USER'' \<mapsto> ''admin'', ''POSTGRES_PASSWORD'' \<mapsto> ''secret'',
      ''POSTGRES_PORT'' \<mapsto> ''6543'']"

subsection \<open>Schema initialisation (lines 38-51)\<close>

text \<open>
  \<^verbatim>\<open>SQLModel.metadata.create_all(engine)\<close> talks to the store; what it does on the
  \<open>n\<close>-th call of a run is the parameter \<open>create_all\<close> (\<open>None\<close>: the tables
  were created, \<open>Some e\<close>: it raised \<open>e\<close>). The loop has no bound, so the model is a
  partial function: \<open>None\<close> means that \<^verbatim>\<open>init_db\<close> never returns. A returned value
  holds the exception that left \<^verbatim>\<open>init_db\<close> (if any) and what the call did, in order.
\<close>

datatype init_event =
    Print string
  | CreateAll
  | Sleep real

partial_function (option) init_db_loop ::
  "(nat \<Rightarrow> exn option) \<Rightarrow> real \<Rightarrow> nat \<Rightarrow> init_event list \<Rightarrow> (exn option \<times> init_event list) option"
where
  "init_db_loop create_all sleep_for n evs =
     (let evs1 = evs @ [Print ''Trying to create the DB tables'', CreateAll] in
      case create_all n of
        None \<Rightarrow> Some (None, evs1 @ [Print ''Tables created.''])
      | Some e \<Rightarrow>
          if exn_class e = OperationalError
          then init_db_loop create_all sleep_for (Suc n)
                 (evs1 @ [Print ''Failed... Attempting again.'', Sleep sleep_for])
          else Some (Some e, evs1))"

declare init_db_loop.simps [code]

definition init_db :: "(nat \<Rightarrow> exn option) \<Rightarrow> real \<Rightarrow> (exn option \<times> init_event list) option" where
  "init_db create_all sleep_for = init_db_loop create_all sleep_for 0 []"

text \<open>The call \<^verbatim>\<open>init_db(engine=engine)\<close> of \<^verbatim>\<open>main\<close>: \<^verbatim>\<open>sleep_for\<close> defaults to 30.\<close>

definition init_db_default :: "(nat \<Rightarrow> exn option) \<Rightarrow> (exn option \<times> init_event list) option" where
  "init_db_default create_all = init_db create_all 30"

text \<open>What one attempt leaves in the event list when it fails with a transient error.\<close>

definition retry_events :: "real \<Rightarrow> init_event list" where
  "retry_events sleep_for =
     [Print ''Trying to create the DB tables'', CreateAll,
      Print ''Failed... Attempting again.'', Sleep sleep_for]"

fun is_Sleep :: "init_event \<Rightarrow> bool" where
  "is_Sleep (Sleep d) = True"
| "is_Sleep _ = False"

definition transient :: "exn option \<Rightarrow> bool" where
  "transient r = (case r of None \<Rightarrow> False | Some e \<Rightarrow> exn_class e = OperationalError)"

subsection \<open>The relational contract\<close>

text \<open>
  Modelled from the spec: the module \<^verbatim>\<open>src/data/db/models.py\<close> (the enumerations
  \<^verbatim>\<open>RawRoadAccidentCsvFileNames\<close> and \<^verbatim>\<open>ProcessingStatus\<close>, the ledger model
  \<^verbatim>\<open>RawRoadAccidentsCsvFile\<close> and the four entity models) is not among the sources.
  The spec gives the logical types (characteristics, locations, vehicles, users), the
  statuses (pending, processed, failed) and the fields of a ledger entry (directory name,
  file name, content hash, processing status, optional failure reason; the descriptor
  also bundles the path). The constructor names are the ones \<^verbatim>\<open>db_tasks.py\<close> uses.
  The spec speaks of the ledger records sharing a hash, so the ledger table carries no
  uniqueness constraint on \<open>md5\<close>.
\<close>

datatype RawRoadAccidentCsvFileNames = caracteristiques | lieux | vehicules | usagers

datatype ProcessingStatus = pending | processed | failed

datatype table_model = Caracteristiques | Lieux | Vehicules | Users

record RawRoadAccidentsCsvFile =
  dir_name :: string
  file_name :: string
  path :: string
  md5 :: string
  processing_status :: ProcessingStatus
  reason :: "string option"

subsection \<open>The session, the in-memory descriptors and the store behind them\<close>

text \<open>
  \<^verbatim>\<open>files\<close> is a Python dict from logical type to a mutable descriptor object, and
  the same objects are handed to the session by \<^verbatim>\<open>db_session.add\<close>: a later
  assignment to \<^verbatim>\<open>processing_status\<close> changes the object the session will write at
  its next commit. The model keeps the dict as an association list (\<open>files\<close>, in
  insertion order, one entry per key) and lets the session refer to a descriptor by its
  key, so the aliasing is explicit:
  \<^item> \<open>new_files\<close>: descriptors added to the session and not yet committed (pending);
  \<^item> \<open>ledger_bound\<close>: the committed ledger rows that belong to a descriptor of
    \<open>files\<close> (the session's identity map), with the values last committed;
  \<^item> \<open>ledger_detached\<close>: the committed ledger rows of earlier sessions;
  \<^item> \<open>new_rows\<close>: entity objects added to the session and not yet committed;
  \<^item> \<open>tables\<close>: the committed rows of the four entity tables;
  \<^item> \<open>inactive\<close>: a flush of this session has failed and nobody called
    \<^verbatim>\<open>rollback\<close> (the module never does). SQLAlchemy then raises
    \<^verbatim>\<open>PendingRollbackError\<close> on every further command that needs the database;
  \<^item> \<open>calls\<close>: the calls made so far, in order (with the logical type a dataframe was
    requested for). The console messages are not modelled.
\<close>

datatype call =
    GetDataframe RawRoadAccidentCsvFileNames string
  | AddDataToTable table_model
  | Commit

record 'e state =
  files :: "(RawRoadAccidentCsvFileNames \<times> RawRoadAccidentsCsvFile) list"
  new_files :: "RawRoadAccidentCsvFileNames list"
  new_rows :: "(table_model \<times> 'e) list"
  inactive :: bool
  ledger_detached :: "RawRoadAccidentsCsvFile list"
  ledger_bound :: "(RawRoadAccidentCsvFileNames \<times> RawRoadAccidentsCsvFile) list"
  tables :: "table_model \<Rightarrow> 'e list"
  calls :: "call list"

text \<open>
  The collaborators that are not part of the module: \<^verbatim>\<open>get_dataframe(path)\<close> of
  \<^verbatim>\<open>file_tasks.py\<close> (a list of rows, or an exception), the constructor
  \<^verbatim>\<open>table_model(**row)\<close> (an entity, or an exception), and the store's verdict on a
  flush of entity rows (\<open>None\<close>: accepted; \<open>Some e\<close>: the flush raises \<open>e\<close>), given
  the committed tables and the rows to insert.
\<close>

record ('r, 'e) collaborators =
  get_dataframe :: "string \<Rightarrow> exn + 'r list"
  construct :: "table_model \<Rightarrow> 'r \<Rightarrow> exn + 'e"
  flush_error :: "(table_model \<Rightarrow> 'e list) \<Rightarrow> (table_model \<times> 'e) list \<Rightarrow> exn option"

definition pending_rollback :: exn where
  "pending_rollback =
     Exn PendingRollbackError
       ''This Session's transaction has been rolled back due to a previous exception during flush.''"

text \<open>The committed ledger table.\<close>

definition ledger :: "'e state \<Rightarrow> RawRoadAccidentsCsvFile list" where
  "ledger s = ledger_detached s @ map snd (ledger_bound s)"

text \<open>The value a descriptor has in memory now (\<open>d\<close> when the dict no longer has it).\<close>

definition current :: "'e state \<Rightarrow> RawRoadAccidentCsvFileNames \<Rightarrow> RawRoadAccidentsCsvFile \<Rightarrow> RawRoadAccidentsCsvFile" where
  "current s k d = (case map_of (files s) k of Some d' \<Rightarrow> d' | None \<Rightarrow> d)"

definition pending_ledger_rows :: "'e state \<Rightarrow> (RawRoadAccidentCsvFileNames \<times> RawRoadAccidentsCsvFile) list" where
  "pending_ledger_rows s = List.map_filter (\<lambda>k. map_option (Pair k) (map_of (files s) k)) (new_files s)"

text \<open>An assignment to attributes of the descriptor stored under key \<open>k\<close>.\<close>

definition update_file ::
  "RawRoadAccidentCsvFileNames \<Rightarrow> (RawRoadAccidentsCsvFile \<Rightarrow> RawRoadAccidentsCsvFile) \<Rightarrow> 'e state \<Rightarrow> 'e state" where
  "update_file k f s = s\<lparr>files := map (\<lambda>(k', d). (k', if k' = k then f d else d)) (files s)\<rparr>"

text \<open>\<^verbatim>\<open>db_session.add(obj)\<close>: an object the session already holds is not added again.\<close>

definition attached :: "'e state \<Rightarrow> RawRoadAccidentCsvFileNames \<Rightarrow> bool" where
  "attached s k = (k \<in> set (new_files s) \<or> k \<in> set (map fst (ledger_bound s)))"

definition session_add_file :: "RawRoadAccidentCsvFileNames \<Rightarrow> 'e state \<Rightarrow> 'e state" where
  "session_add_file k s = (if attached s k then s else s\<lparr>new_files := new_files s @ [k]\<rparr>)"

definition session_add_row :: "table_model \<Rightarrow> 'e \<Rightarrow> 'e state \<Rightarrow> 'e state" where
  "session_add_row t e s = s\<lparr>new_rows := new_rows s @ [(t, e)]\<rparr>"

text \<open>
  A flush that fails rolls the transaction back: the pending objects leave the session
  and the session stays unusable until \<^verbatim>\<open>rollback\<close> is called.
\<close>

definition failed_flush :: "'e state \<Rightarrow> 'e state" where
  "failed_flush s = s\<lparr>new_files := [], new_rows := [], inactive := True\<rparr>"

definition flush_verdict :: "('r, 'e) collaborators \<Rightarrow> 'e state \<Rightarrow> exn option" where
  "flush_verdict C s = (if new_rows s = [] then None else flush_error C (tables s) (new_rows s))"

text \<open>The rows of table \<open>t\<close> among the entity objects \<open>rows\<close>, in the order they were added.\<close>

definition rows_of :: "table_model \<Rightarrow> (table_model \<times> 'e) list \<Rightarrow> 'e list" where
  "rows_of t rows = map snd (filter (\<lambda>(t', e). t' = t) rows)"

text \<open>
  \<^verbatim>\<open>db_session.commit()\<close>: flush and commit. The pending descriptors become ledger
  rows, the rows of the descriptors the session holds take their in-memory values, and
  the pending entity rows are appended to their tables.
\<close>

definition session_commit :: "('r, 'e) collaborators \<Rightarrow> 'e state \<Rightarrow> exn option \<times> 'e state" where
  "session_commit C s0 =
     (let s = s0\<lparr>calls := calls s0 @ [Commit]\<rparr> in
      if inactive s then (Some pending_rollback, s)
      else case flush_verdict C s of
             Some e \<Rightarrow> (Some e, failed_flush s)
           | None \<Rightarrow>
               (None,
                s\<lparr>ledger_bound :=
                     map (\<lambda>(k, d). (k, current s k d)) (ledger_bound s) @ pending_ledger_rows s,
                   tables := (\<lambda>t. tables s t @ rows_of t (new_rows s)),
                   new_files := [],
                   new_rows := []\<rparr>))"

text \<open>
  \<^verbatim>\<open>db_session.exec(select(RawRoadAccidentsCsvFile).where(md5 == h))\<close>. The session
  flushes first (autoflush), so the query also sees the descriptors added earlier in
  the same transaction, with their in-memory values.
\<close>

definition ledger_view :: "'e state \<Rightarrow> RawRoadAccidentsCsvFile list" where
  "ledger_view s =
     ledger_detached s @ map (\<lambda>(k, d). current s k d) (ledger_bound s)
       @ map snd (pending_ledger_rows s)"

definition session_exec_select_md5 ::
  "('r, 'e) collaborators \<Rightarrow> string \<Rightarrow> 'e state \<Rightarrow> (exn + RawRoadAccidentsCsvFile list) \<times> 'e state" where
  "session_exec_select_md5 C h s =
     (if inactive s then (Inl pending_rollback, s)
      else case flush_verdict C s of
             Some e \<Rightarrow> (Inl e, failed_flush s)
           | None \<Rightarrow> (Inr (filter (\<lambda>d. md5 d = h) (ledger_view s)), s))"

text \<open>
  Reading an attribute of a descriptor. After a commit or a rollback the attributes of
  an object the session holds are expired and the read reloads them from the database,
  which an inactive session refuses.
\<close>

definition read_processing_status ::
  "RawRoadAccidentCsvFileNames \<Rightarrow> RawRoadAccidentsCsvFile \<Rightarrow> 'e state \<Rightarrow> exn + ProcessingStatus" where
  "read_processing_status k d s =
     (if inactive s \<and> k \<in> set (map fst (ledger_bound s)) then Inl pending_rollback
      else Inr (processing_status d))"

subsection \<open>\<^verbatim>\<open>_add_data_to_table\<close> (lines 54-61)\<close>

fun add_rows ::
  "('r, 'e) collaborators \<Rightarrow> table_model \<Rightarrow> 'r list \<Rightarrow> 'e state \<Rightarrow> exn option \<times> 'e state" where
  "add_rows C table_model [] s = (None, s)"
| "add_rows C table_model (row # rows) s =
     (case construct C table_model row of
        Inl e \<Rightarrow> (Some e, s)
      | Inr carac \<Rightarrow> add_rows C table_model rows (session_add_row table_model carac s))"

definition add_data_to_table ::
  "('r, 'e) collaborators \<Rightarrow> 'r list \<Rightarrow> table_model \<Rightarrow> 'e state \<Rightarrow> exn option \<times> 'e state" where
  "add_data_to_table C df table_model s =
     (case add_rows C table_model df (s\<lparr>calls := calls s @ [AddDataToTable table_model]\<rparr>) of
        (Some e, s1) \<Rightarrow> (Some e, s1)
      | (None, s1) \<Rightarrow> session_commit C s1)"

subsection \<open>\<^verbatim>\<open>update_raw_accidents_csv_files_table\<close> (lines 64-86)\<close>

fun register_files ::
  "('r, 'e) collaborators \<Rightarrow> (RawRoadAccidentCsvFileNames \<times> RawRoadAccidentsCsvFile) list \<Rightarrow> 'e state
     \<Rightarrow> exn option \<times> 'e state" where
  "register_files C [] s = (None, s)"
| "register_files C ((road_acc_type, road_acc_file) # items) s =
     (case session_exec_select_md5 C (md5 road_acc_file) s of
        (Inl e, s1) \<Rightarrow> (Some e, s1)
      | (Inr results, s1) \<Rightarrow>
          if list_ex (\<lambda>r. processing_status r = processed) results
          then register_files C items
                 (update_file road_acc_type (\<lambda>d. d\<lparr>processing_status := processed\<rparr>) s1)
          else register_files C items (session_add_file road_acc_type s1))"

definition update_raw_accidents_csv_files_table ::
  "('r, 'e) collaborators \<Rightarrow> 'e state \<Rightarrow> exn option \<times> 'e state" where
  "update_raw_accidents_csv_files_table C s =
     (case register_files C (files s) s of
        (Some e, s1) \<Rightarrow> (Some e, s1)
      | (None, s1) \<Rightarrow> session_commit C s1)"

subsection \<open>\<^verbatim>\<open>add_data_to_db\<close> (lines 89-123)\<close>

definition order_files :: "RawRoadAccidentCsvFileNames list" where
  "order_files = [caracteristiques, lieux, vehicules, usagers]"

definition select_table_model :: "RawRoadAccidentCsvFileNames \<Rightarrow> exn + table_model" where
  "select_table_model raw_csv_type =
     (if raw_csv_type = caracteristiques then Inr Caracteristiques
      else if raw_csv_type = lieux then Inr Lieux
      else if raw_csv_type = usagers then Inr Users
      else if raw_csv_type = vehicules then Inr Vehicules
      else Inl (Exn RuntimeError ''Unknown road accidents raw file!''))"

text \<open>
  The body of the loop for one logical type. \<open>Some e\<close> in the result is an exception
  that leaves \<^verbatim>\<open>add_data_to_db\<close>; \<open>None\<close> is the normal end of the iteration (also
  through \<^verbatim>\<open>continue\<close>).
\<close>

definition mark_processed :: "RawRoadAccidentCsvFileNames \<Rightarrow> 'e state \<Rightarrow> 'e state" where
  "mark_processed k s = update_file k (\<lambda>d. d\<lparr>processing_status := processed\<rparr>) s"

definition mark_failed :: "RawRoadAccidentCsvFileNames \<Rightarrow> exn \<Rightarrow> 'e state \<Rightarrow> 'e state" where
  "mark_failed k e s =
     update_file k (\<lambda>d. d\<lparr>processing_status := failed,
                           reason := Some (''Exception raised: '' @ str e)\<rparr>) s"

definition load_file ::
  "('r, 'e) collaborators \<Rightarrow> RawRoadAccidentCsvFileNames \<Rightarrow> 'e state \<Rightarrow> exn option \<times> 'e state" where
  "load_file C raw_csv_type s =
     (case map_of (files s) raw_csv_type of
        None \<Rightarrow> (None, s)
      | Some road_acc_model \<Rightarrow>
          (case read_processing_status raw_csv_type road_acc_model s of
             Inl e \<Rightarrow> (Some e, s)
           | Inr status \<Rightarrow>
               if status = processed then (None, s)
               else
                 let s1 = s\<lparr>calls := calls s @ [GetDataframe raw_csv_type (path road_acc_model)]\<rparr> in
                 (case get_dataframe C (path road_acc_model) of
                    Inl e \<Rightarrow> (Some e, s1)
                  | Inr df \<Rightarrow>
                      (case select_table_model raw_csv_type of
                         Inl e \<Rightarrow> (Some e, s1)
                       | Inr table_model \<Rightarrow>
                           (case add_data_to_table C df table_model s1 of
                              (None, s2) \<Rightarrow>
                                (None, session_add_file raw_csv_type (mark_processed raw_csv_type s2))
                            | (Some e, s2) \<Rightarrow>
                                (None, session_add_file raw_csv_type (mark_failed raw_csv_type e s2)))))))"

fun load_files ::
  "('r, 'e) collaborators \<Rightarrow> RawRoadAccidentCsvFileNames list \<Rightarrow> 'e state \<Rightarrow> exn option \<times> 'e state" where
  "load_files C [] s = (None, s)"
| "load_files C (raw_csv_type # rest) s =
     (case load_file C raw_csv_type s of
        (Some e, s1) \<Rightarrow> (Some e, s1)
      | (None, s1) \<Rightarrow> load_files C rest s1)"

definition add_data_to_db :: "('r, 'e) collaborators \<Rightarrow> 'e state \<Rightarrow> exn option \<times> 'e state" where
  "add_data_to_db C s = load_files C order_files s"

subsection \<open>The session block of \<^verbatim>\<open>main\<close> (lines 130-136)\<close>

text \<open>
  \<^verbatim>\<open>with Session(engine) as session\<close> opens a new session on the store: nothing is
  pending, and no committed ledger row belongs to one of the freshly discovered
  descriptors \<open>file2model\<close>. An exception leaves the block and closes the session;
  what was committed before stays committed.
\<close>

definition open_session ::
  "(RawRoadAccidentCsvFileNames \<times> RawRoadAccidentsCsvFile) list \<Rightarrow> 'e state \<Rightarrow> 'e state" where
  "open_session file2model s =
     s\<lparr>files := file2model, new_files := [], new_rows := [], inactive := False,
       ledger_detached := ledger s, ledger_bound := []\<rparr>"


definition empty_store :: "'e state" where
  "empty_store =
     \<lparr>files = [], new_files = [], new_rows = [], inactive = False, ledger_detached = [],
      ledger_bound = [], tables = (\<lambda>t. []), calls = []\<rparr>"

subsection \<open>Notions the properties are stated with\<close>

text \<open>
  The entities \<^verbatim>\<open>_add_data_to_table\<close> constructs from a dataframe before the first
  row whose construction raises, and that first exception (if any).
\<close>

fun constructed :: "('r, 'e) collaborators \<Rightarrow> table_model \<Rightarrow> 'r list \<Rightarrow> 'e list" where
  "constructed C t [] = []"
| "constructed C t (row # rows) =
     (case construct C t row of Inl e \<Rightarrow> [] | Inr c \<Rightarrow> c # constructed C t rows)"

fun construct_failure :: "('r, 'e) collaborators \<Rightarrow> table_model \<Rightarrow> 'r list \<Rightarrow> exn option" where
  "construct_failure C t [] = None"
| "construct_failure C t (row # rows) =
     (case construct C t row of Inl e \<Rightarrow> Some e | Inr c \<Rightarrow> construct_failure C t rows)"

text \<open>The table each logical type is loaded into (lines 105-112).\<close>

fun table_of :: "RawRoadAccidentCsvFileNames \<Rightarrow> table_model" where
  "table_of caracteristiques = Caracteristiques"
| "table_of lieux = Lieux"
| "table_of usagers = Users"
| "table_of vehicules = Vehicules"

text \<open>The logical types a list of calls requested a dataframe for, and the tables it wrote to.\<close>

fun loads :: "call list \<Rightarrow> RawRoadAccidentCsvFileNames list" where
  "loads [] = []"
| "loads (GetDataframe t p # cs) = t # loads cs"
| "loads (c # cs) = loads cs"

fun writes :: "call list \<Rightarrow> table_model list" where
  "writes [] = []"
| "writes (AddDataToTable t # cs) = t # writes cs"
| "writes (c # cs) = writes cs"

text \<open>A logical type that is in the dict and whose descriptor is not marked processed.\<close>

definition eligible :: "'e state \<Rightarrow> RawRoadAccidentCsvFileNames \<Rightarrow> bool" where
  "eligible s t =
     (case map_of (files s) t of None \<Rightarrow> False | Some d \<Rightarrow> processing_status d \<noteq> processed)"

definition status_of :: "'e state \<Rightarrow> RawRoadAccidentCsvFileNames \<Rightarrow> ProcessingStatus option" where
  "status_of s t = map_option processing_status (map_of (files s) t)"

text \<open>The content hashes of the ledger rows marked processed, one entry per row.\<close>

definition processed_hashes :: "RawRoadAccidentsCsvFile list \<Rightarrow> string list" where
  "processed_hashes rows = map md5 (filter (\<lambda>r. processing_status r = processed) rows)"

definition at_most_one_processed :: "RawRoadAccidentsCsvFile list \<Rightarrow> bool" where
  "at_most_one_processed rows = distinct (processed_hashes rows)"

text \<open>The calls made between state \<open>s\<close> and a later state \<open>s'\<close>.\<close>

definition calls_since :: "'e state \<Rightarrow> 'e state \<Rightarrow> call list" where
  "calls_since s s' = drop (length (calls s)) (calls s')"

text \<open>
  Two states that differ at most in the order in which the dict \<open>files\<close> lists its
  entries: every lookup gives the same descriptor, and all the rest is equal.
\<close>

definition same_dict :: "'e state \<Rightarrow> 'e state \<Rightarrow> bool" where
  "same_dict s s' =
     (map_of (files s) = map_of (files s') \<and> new_files s = new_files s' \<and> new_rows s = new_rows s'
      \<and> inactive s = inactive s' \<and> ledger_detached s = ledger_detached s'
      \<and> ledger_bound s = ledger_bound s' \<and> tables s = tables s' \<and> calls s = calls s')"

subsection \<open>Concrete inputs\<close>

definition two_rejections :: "nat \<Rightarrow> exn option" where
  "two_rejections i = (if i < 2 then Some (Exn OperationalError ''connection refused'') else None)"

text \<open>A freshly discovered descriptor: file name and content hash.\<close>

definition discovered :: "string \<Rightarrow> string \<Rightarrow> RawRoadAccidentsCsvFile" where
  "discovered name h =
     \<lparr>dir_name = ''raw'', file_name = name, path = ''raw/'' @ name, md5 = h,
      processing_status = pending, reason = None\<rparr>"

text \<open>
  Collaborators over rows that are natural numbers. In \<open>bad_second_row\<close> the vehicles
  file has two rows and the construction of the second one raises; in
  \<open>unreadable_vehicules\<close> the vehicles file cannot be read.
\<close>

definition bad_second_row :: "(nat, nat) collaborators" where
  "bad_second_row =
     \<lparr>get_dataframe = (\<lambda>p. if p = ''raw/vehicules.csv'' then Inr [1, 0] else Inr [5]),
      construct = (\<lambda>t r. if r = 0 then Inl (Exn OtherException ''invalid row'') else Inr r),
      flush_error = (\<lambda>tb rows. None)\<rparr>"

definition unreadable_vehicules :: "(nat, nat) collaborators" where
  "unreadable_vehicules =
     \<lparr>get_dataframe =
        (\<lambda>p. if p = ''raw/vehicules.csv'' then Inl (Exn OtherException ''No such file'') else Inr [5]),
      construct = (\<lambda>t r. Inr r),
      flush_error = (\<lambda>tb rows. None)\<rparr>"

definition two_files :: "(RawRoadAccidentCsvFileNames \<times> RawRoadAccidentsCsvFile) list" where
  "two_files =
     [(usagers, discovered ''usagers.csv'' ''h2''), (vehicules, discovered ''vehicules.csv'' ''h1'')]"

definition two_files_registered :: "nat state" where
  "two_files_registered =
     snd (update_raw_accidents_csv_files_table bad_second_row (open_session two_files empty_store))"


text \<open>The example state with the users file already marked processed.\<close>

definition users_processed :: "nat state" where
  "users_processed = update_file usagers (\<lambda>d. d\<lparr>processing_status := processed\<rparr>) two_files_registered"




section \<open>Properties\<close>

subsection \<open>Schema initialisation\<close>

lemma init_db_loop_retry:
  "(\<forall>i<k. transient (create_all (n + i))) \<Longrightarrow>
   init_db_loop create_all d n evs =
   init_db_loop create_all d (n + k) (evs @ concat (replicate k (retry_events d)))"
proof (induction k arbitrary: n evs)
  case 0
  then show ?case by simp
next
  case (Suc k)
  have t: "transient (create_all n)" using Suc.prems by (metis add.right_neutral zero_less_Suc)
  have rest: "\<forall>i<k. transient (create_all (Suc n + i))" using Suc.prems by (metis Suc_less_eq add_Suc_shift)
  have step: "init_db_loop create_all d n evs = init_db_loop create_all d (Suc n) (evs @ retry_events d)"
    using t by (subst init_db_loop.simps) (simp add: transient_def retry_events_def split: option.splits)
  show ?case using Suc.IH[OF rest, of "evs @ retry_events d"] step by simp
qed

lemma init_db_loop_stop:
  "\<not> transient (create_all n) \<Longrightarrow>
   init_db_loop create_all d n evs =
   Some (create_all n, evs @ [Print ''Trying to create the DB tables'', CreateAll]
           @ (if create_all n = None then [Print ''Tables created.''] else []))"
  by (subst init_db_loop.simps) (simp add: transient_def split: option.splits)

lemma init_db_loop_returns:
  assumes "init_db_loop create_all d n evs = Some r"
  shows "\<exists>i\<ge>n. \<not> transient (create_all i)"
proof (rule init_db_loop.raw_induct[where P = "\<lambda>c d n evs r. \<exists>i\<ge>n. \<not> transient (c i)", OF _ assms], goal_cases)
  case (1 f c s m es y)
  show ?case
  proof (cases "transient (c m)")
    case False
    then show ?thesis by blast
  next
    case True
    then obtain e where e: "c m = Some e" "exn_class e = OperationalError"
      by (auto simp: transient_def split: option.splits)
    from 1(2) e have "\<exists>es'. f c s (Suc m) es' = Some y"
      by (auto simp: Let_def)
    then obtain es' where "f c s (Suc m) es' = Some y" by blast
    from 1(1)[OF this] obtain i where "i \<ge> Suc m" "\<not> transient (c i)" by blast
    then show ?thesis by (metis Suc_leD)
  qed
qed

lemma filter_is_Sleep_retries:
  "filter is_Sleep (concat (replicate k (retry_events d))) = replicate k (Sleep d)"
  by (induction k) (simp_all add: retry_events_def)

text \<open>
  Claim C4. \<^verbatim>\<open>init_db\<close> retries as long as \<^verbatim>\<open>create_all\<close> raises
  \<^verbatim>\<open>OperationalError\<close>, sleeping \<^verbatim>\<open>sleep_for\<close> (30 by default) after each such
  failure: when the first \<open>k\<close> attempts fail that way and attempt \<open>k\<close> does not,
  it returns after exactly \<open>k\<close> sleeps and \<open>k + 1\<close> attempts, with the outcome of
  that attempt (success, or the other exception, which is propagated without a sleep);
  when every attempt fails that way it never returns.
\<close>

theorem init_db_retry_discipline:
  "((\<forall>i<k. transient (create_all i)) \<and> \<not> transient (create_all k) \<longrightarrow>
      (\<exists>evs. init_db create_all sleep_for = Some (create_all k, evs)
         \<and> evs = concat (replicate k (retry_events sleep_for))
                 @ [Print ''Trying to create the DB tables'', CreateAll]
                 @ (if create_all k = None then [Print ''Tables created.''] else [])
         \<and> filter is_Sleep evs = replicate k (Sleep sleep_for)
         \<and> length (filter (\<lambda>ev. ev = CreateAll) evs) = Suc k))
   \<and> ((\<forall>i. transient (create_all i)) \<longrightarrow> init_db create_all sleep_for = None)
   \<and> init_db_default create_all = init_db create_all 30"
proof (intro conjI impI)
  assume h: "(\<forall>i<k. transient (create_all i)) \<and> \<not> transient (create_all k)"
  let ?evs = "concat (replicate k (retry_events sleep_for))
                 @ [Print ''Trying to create the DB tables'', CreateAll]
                 @ (if create_all k = None then [Print ''Tables created.''] else [])"
  have "init_db create_all sleep_for = init_db_loop create_all sleep_for (0 + k) ([] @ concat (replicate k (retry_events sleep_for)))"
    unfolding init_db_def using h by (intro init_db_loop_retry) simp
  also have "\<dots> = Some (create_all k, ?evs)"
    using h by (simp add: init_db_loop_stop)
  finally have r: "init_db create_all sleep_for = Some (create_all k, ?evs)" .
  have c: "length (filter (\<lambda>ev. ev = CreateAll) (concat (replicate k (retry_events sleep_for)))) = k"
    by (induction k) (simp_all add: retry_events_def)
  show "\<exists>evs. init_db create_all sleep_for = Some (create_all k, evs)
         \<and> evs = ?evs
         \<and> filter is_Sleep evs = replicate k (Sleep sleep_for)
         \<and> length (filter (\<lambda>ev. ev = CreateAll) evs) = Suc k"
    using r c by (simp add: filter_is_Sleep_retries)
next
  assume "\<forall>i. transient (create_all i)"
  then show "init_db create_all sleep_for = None"
    unfolding init_db_def using init_db_loop_returns by (metis not_Some_eq)
next
  show "init_db_default create_all = init_db create_all 30"
    by (simp add: init_db_default_def)
qed

text \<open>Two rejections, then success: two sleeps of 30, three attempts, no exception.\<close>

theorem init_db_retry_discipline_witness:
  "transient (two_rejections 0) \<and> transient (two_rejections 1) \<and> \<not> transient (two_rejections 2)
   \<and> (\<exists>evs. init_db_default two_rejections = Some (None, evs)
         \<and> filter is_Sleep evs = [Sleep 30, Sleep 30]
         \<and> length (filter (\<lambda>ev. ev = CreateAll) evs) = 3)"
proof -
  have h: "(\<forall>i<2. transient (two_rejections i)) \<and> \<not> transient (two_rejections 2)"
    by (simp add: two_rejections_def transient_def)
  have t: "transient (two_rejections 0) \<and> transient (two_rejections 1) \<and> \<not> transient (two_rejections 2)"
    by (simp add: two_rejections_def transient_def)
  have two: "two_rejections 2 = None" by (simp add: two_rejections_def)
  from init_db_retry_discipline[of 2 two_rejections 30] h
  obtain evs where "init_db two_rejections 30 = Some (two_rejections 2, evs)"
    "filter is_Sleep evs = replicate 2 (Sleep 30)" "length (filter (\<lambda>ev. ev = CreateAll) evs) = Suc 2"
    by blast
  then show ?thesis using t two by (auto simp: init_db_default_def numeral_2_eq_2)
qed

subsection \<open>The connection URL\<close>

text \<open>
  Claim C8. The claim wants every setting, the port included, to determine its
  component of the URL. In the module the port component is the literal 5432: with
  \<^verbatim>\<open>POSTGRES_PORT=6543\<close> the URL still names port 5432, and two environments that
  differ in the port only give the same URL.
\<close>

theorem db_url_port_is_constant:
  "db_url example_env = ''postgresql+psycopg2://admin:secret@db:5432/accidents''
   \<and> db_url_from_settings example_env = ''postgresql+psycopg2://admin:secret@db:6543/accidents''
   \<and> db_url (env(''POSTGRES_PORT'' \<mapsto> p)) = db_url (env(''POSTGRES_PORT'' \<mapsto> q))"
  by (simp add: db_url_def db_url_from_settings_def example_env_def getenv_def)

subsection \<open>The session and the bulk writer\<close>

lemma add_rows_closed:
  "add_rows C t df s =
     (construct_failure C t df, s\<lparr>new_rows := new_rows s @ map (Pair t) (constructed C t df)\<rparr>)"
proof (induction df arbitrary: s)
  case Nil
  then show ?case by simp
next
  case (Cons row rows)
  show ?case
  proof (cases "construct C t row")
    case (Inl e)
    then show ?thesis by simp
  next
    case (Inr c)
    then show ?thesis by (simp add: Cons.IH session_add_row_def)
  qed
qed

lemma session_commit_raises:
  "session_commit C s = (Some e, s') \<Longrightarrow>
     tables s' = tables s \<and> ledger_bound s' = ledger_bound s \<and> ledger_detached s' = ledger_detached s
     \<and> files s' = files s \<and> calls s' = calls s @ [Commit] \<and> inactive s'"
  by (auto simp: session_commit_def Let_def failed_flush_def split: if_splits option.splits)

lemma session_commit_returns:
  "session_commit C s = (None, s') \<Longrightarrow>
     \<not> inactive s \<and> \<not> inactive s' \<and> new_rows s' = [] \<and> new_files s' = []
     \<and> tables s' = (\<lambda>t. tables s t @ rows_of t (new_rows s))
     \<and> ledger_bound s' = map (\<lambda>(k, d). (k, current s k d)) (ledger_bound s) @ pending_ledger_rows s
     \<and> ledger_detached s' = ledger_detached s \<and> files s' = files s \<and> calls s' = calls s @ [Commit]"
  by (auto simp: session_commit_def Let_def failed_flush_def current_def pending_ledger_rows_def split: if_splits option.splits)

lemma rows_of_append [simp]: "rows_of t (xs @ ys) = rows_of t xs @ rows_of t ys"
  by (simp add: rows_of_def)

lemma rows_of_Pair [simp]: "rows_of t (map (Pair t') es) = (if t' = t then es else [])"
  by (induction es) (auto simp: rows_of_def)

lemma rows_of_Nil [simp]: "rows_of t [] = []"
  by (simp add: rows_of_def)

lemma select_table_model_eq: "select_table_model t = Inr (table_of t)"
  by (cases t) (simp_all add: select_table_model_def)

text \<open>What \<open>add_data_to_table\<close> does, case by case.\<close>

lemma add_data_to_table_construct_raises:
  assumes "construct_failure C tm df = Some e"
  shows "add_data_to_table C df tm s =
           (Some e, s\<lparr>calls := calls s @ [AddDataToTable tm],
                      new_rows := new_rows s @ map (Pair tm) (constructed C tm df)\<rparr>)"
  using assms by (simp add: add_data_to_table_def add_rows_closed)

lemma add_data_to_table_constructs:
  assumes "construct_failure C tm df = None"
  shows "add_data_to_table C df tm s =
           session_commit C (s\<lparr>calls := calls s @ [AddDataToTable tm],
                               new_rows := new_rows s @ map (Pair tm) (constructed C tm df)\<rparr>)"
  using assms by (simp add: add_data_to_table_def add_rows_closed)

lemma add_data_to_table_raises:
  assumes "add_data_to_table C df tm s = (Some e, s')"
  shows "tables s' = tables s \<and> ledger_bound s' = ledger_bound s
         \<and> ledger_detached s' = ledger_detached s \<and> files s' = files s"
proof (cases "construct_failure C tm df")
  case None
  with assms show ?thesis
    by (auto simp: add_data_to_table_constructs dest!: session_commit_raises)
next
  case (Some e')
  with assms show ?thesis by (auto simp: add_data_to_table_construct_raises)
qed

lemma add_data_to_table_returns:
  assumes "add_data_to_table C df tm s = (None, s')"
  shows "construct_failure C tm df = None
         \<and> tables s' = (\<lambda>t. tables s t @ rows_of t (new_rows s) @ (if t = tm then constructed C tm df else []))
         \<and> new_rows s' = [] \<and> new_files s' = [] \<and> \<not> inactive s \<and> \<not> inactive s'
         \<and> ledger_bound s' = map (\<lambda>(k, d). (k, current s k d)) (ledger_bound s) @ pending_ledger_rows s
         \<and> ledger_detached s' = ledger_detached s \<and> files s' = files s
         \<and> calls s' = calls s @ [AddDataToTable tm, Commit]"
proof (cases "construct_failure C tm df")
  case None
  with assms have "session_commit C (s\<lparr>calls := calls s @ [AddDataToTable tm],
                               new_rows := new_rows s @ map (Pair tm) (constructed C tm df)\<rparr>) = (None, s')"
    by (simp add: add_data_to_table_constructs)
  from session_commit_returns[OF this] None show ?thesis
    by (auto simp: current_def pending_ledger_rows_def)
next
  case (Some e')
  with assms show ?thesis by (auto simp: add_data_to_table_construct_raises)
qed

lemma files_add_data_to_table [simp]: "files (snd (add_data_to_table C df tm s)) = files s"
proof (cases "add_data_to_table C df tm s")
  case (Pair r s')
  then show ?thesis
    by (cases r) (auto dest: add_data_to_table_raises add_data_to_table_returns)
qed

text \<open>descriptors in memory\<close>

lemma map_of_update_file:
  "map_of (files (update_file k f s)) k' =
     (if k' = k then map_option f (map_of (files s) k) else map_of (files s) k')"
proof -
  have "map_of (map (\<lambda>(k', d). (k', if k' = k then f d else d)) xs) k' =
     (if k' = k then map_option f (map_of xs k) else map_of xs k')" for xs
    by (induction xs) auto
  then show ?thesis by (simp add: update_file_def)
qed

subsection \<open>One iteration of the load loop\<close>

lemma load_file_write:
  assumes "map_of (files s) t = Some m" and "read_processing_status t m s = Inr st"
    and "st \<noteq> processed" and "get_dataframe C (path m) = Inr df"
  shows "load_file C t s =
    (case add_data_to_table C df (table_of t) (s\<lparr>calls := calls s @ [GetDataframe t (path m)]\<rparr>) of
       (None, s2) \<Rightarrow> (None, session_add_file t (mark_processed t s2))
     | (Some e, s2) \<Rightarrow> (None, session_add_file t (mark_failed t e s2)))"
  using assms by (simp add: load_file_def select_table_model_eq Let_def)

lemma files_session_add_file [simp]: "files (session_add_file k s) = files s"
  by (simp add: session_add_file_def)

lemma attached_session_add_file [simp]: "attached (session_add_file k s) k"
  by (simp add: session_add_file_def attached_def)


lemma status_of_mark_processed:
  "map_of (files s) t = Some m \<Longrightarrow>
     map_of (files (mark_processed t s)) t = Some (m\<lparr>processing_status := processed\<rparr>)"
  by (simp add: mark_processed_def map_of_update_file)

subsection \<open>Fault isolation\<close>




subsection \<open>The exceptions that leave \<^verbatim>\<open>add_data_to_db\<close>\<close>


lemma load_file_raises:
  assumes "fst (load_file C t s) = Some e"
  shows "e = pending_rollback \<or> (\<exists>p. get_dataframe C p = Inl e)"
proof (cases "map_of (files s) t")
  case None
  with assms show ?thesis by (simp add: load_file_def)
next
  case (Some m)
  show ?thesis
  proof (cases "read_processing_status t m s")
    case (Inl e')
    then have "e' = pending_rollback"
      by (auto simp: read_processing_status_def split: if_splits)
    with assms Some Inl show ?thesis by (simp add: load_file_def)
  next
    case (Inr st)
    show ?thesis
    proof (cases "st = processed")
      case True
      with assms Some Inr show ?thesis by (simp add: load_file_def)
    next
      case False
      show ?thesis
      proof (cases "get_dataframe C (path m)")
        case (Inl e')
        with assms Some Inr False have "e' = e"
          by (simp add: load_file_def Let_def)
        with Inl show ?thesis by blast
      next
        case (Inr df)
        from load_file_write[OF Some \<open>read_processing_status t m s = Inr st\<close> False Inr] assms
        show ?thesis by (auto split: prod.splits option.splits)
      qed
    qed
  qed
qed

lemma load_files_raises:
  "fst (load_files C ts s) = Some e \<Longrightarrow> e = pending_rollback \<or> (\<exists>p. get_dataframe C p = Inl e)"
proof (induction ts arbitrary: s)
  case Nil
  then show ?case by simp
next
  case (Cons t ts)
  show ?case
  proof (cases "load_file C t s")
    case (Pair r s1)
    show ?thesis
    proof (cases r)
      case None
      with Pair Cons.prems have "fst (load_files C ts s1) = Some e" by simp
      then show ?thesis by (rule Cons.IH)
    next
      case (Some e')
      with Pair Cons.prems have "fst (load_file C t s) = Some e" by simp
      then show ?thesis by (rule load_file_raises)
    qed
  qed
qed

text \<open>
  Claim C10. The \<^verbatim>\<open>else\<close> branch that raises \<^verbatim>\<open>RuntimeError\<close> is never taken:
  the chain of comparisons gives a table model for each of the four types of
  \<^verbatim>\<open>order_files\<close> (and for every logical type), and an exception that leaves
  \<^verbatim>\<open>add_data_to_db\<close> was raised by \<^verbatim>\<open>get_dataframe\<close> or is the session's
  \<^verbatim>\<open>PendingRollbackError\<close>.
\<close>

theorem unknown_file_branch_unreachable:
  "map select_table_model order_files = [Inr Caracteristiques, Inr Lieux, Inr Vehicules, Inr Users]
   \<and> select_table_model t \<noteq> Inl e'
   \<and> (fst (add_data_to_db C s) = Some e \<longrightarrow>
        e = pending_rollback \<or> (\<exists>p. get_dataframe C p = Inl e))"
  using load_files_raises[of C order_files s e]
  by (simp add: select_table_model_eq order_files_def add_data_to_db_def)

text \<open>A run that an exception leaves: the exception is the one of \<^verbatim>\<open>get_dataframe\<close>.\<close>

theorem unknown_file_branch_unreachable_witness:
  "fst (add_data_to_db unreadable_vehicules two_files_registered) = Some (Exn OtherException ''No such file'')
   \<and> (Exn OtherException ''No such file'' = pending_rollback
        \<or> (\<exists>p. get_dataframe unreadable_vehicules p = Inl (Exn OtherException ''No such file'')))
   \<and> get_dataframe unreadable_vehicules ''raw/vehicules.csv'' = Inl (Exn OtherException ''No such file'')"
proof -
  have h: "fst (add_data_to_db unreadable_vehicules two_files_registered) = Some (Exn OtherException ''No such file'')"
    by code_simp
  have g: "get_dataframe unreadable_vehicules ''raw/vehicules.csv'' = Inl (Exn OtherException ''No such file'')"
    by code_simp
  from unknown_file_branch_unreachable[of caracteristiques "Exn RuntimeError []" unreadable_vehicules two_files_registered
      "Exn OtherException ''No such file''"] h g
  show ?thesis by blast
qed

subsection \<open>The unit of work of one file\<close>






subsection \<open>The order of the two commits\<close>

lemma map_of_rebound:
  "k \<in> fst ` set xs \<Longrightarrow>
     map_of (map (\<lambda>(k, d). (k, g k d)) xs @ ys) k = map_option (g k) (map_of xs k)"
  by (induction xs) auto

lemma current_self: "map_of (files s) k = Some m \<Longrightarrow> current s k d = m"
  by (simp add: current_def)

lemma session_add_file_attached: "attached s k \<Longrightarrow> session_add_file k s = s"
  by (simp add: session_add_file_def)

lemma attached_bound: "k \<in> set (map fst (ledger_bound s)) \<Longrightarrow> attached s k"
  by (simp add: attached_def)

lemma mark_processed_fields [simp]:
  "tables (mark_processed k s) = tables s"
  "ledger_bound (mark_processed k s) = ledger_bound s"
  "ledger_detached (mark_processed k s) = ledger_detached s"
  "calls (mark_processed k s) = calls s"
  "new_rows (mark_processed k s) = new_rows s"
  "new_files (mark_processed k s) = new_files s"
  "inactive (mark_processed k s) = inactive s"
  by (simp_all add: mark_processed_def update_file_def)

lemma attached_mark_processed [simp]: "attached (mark_processed k s) k' = attached s k'"
  by (simp add: attached_def)

text \<open>
  Claim C9. For a registered file that is loaded successfully, the commit inside
  \<^verbatim>\<open>_add_data_to_table\<close> persists the rows while the ledger row of the file still
  has its old status, which is not processed. \<^verbatim>\<open>add_data_to_db\<close> then sets the
  status in memory only: the iteration ends with that commit as its last call, the
  tables and the ledger row unchanged since. The status reaches the ledger with the
  next commit of the session.
\<close>

theorem status_commit_follows_rows_commit:
  assumes "map_of (files s) t = Some m"
    and "read_processing_status t m s = Inr st" and "st \<noteq> processed"
    and "get_dataframe C (path m) = Inr df"
    and "t \<in> set (map fst (ledger_bound s))"
    and "fst (add_data_to_table C df (table_of t) (s\<lparr>calls := calls s @ [GetDataframe t (path m)]\<rparr>)) = None"
  shows "processing_status m \<noteq> processed
     \<and> tables (snd (add_data_to_table C df (table_of t) (s\<lparr>calls := calls s @ [GetDataframe t (path m)]\<rparr>))) (table_of t)
         = tables s (table_of t) @ rows_of (table_of t) (new_rows s) @ constructed C (table_of t) df
     \<and> map_of (ledger_bound (snd (add_data_to_table C df (table_of t) (s\<lparr>calls := calls s @ [GetDataframe t (path m)]\<rparr>)))) t
         = Some m
     \<and> fst (load_file C t s) = None
     \<and> map_of (files (snd (load_file C t s))) t = Some (m\<lparr>processing_status := processed\<rparr>)
     \<and> tables (snd (load_file C t s)) = tables (snd (add_data_to_table C df (table_of t) (s\<lparr>calls := calls s @ [GetDataframe t (path m)]\<rparr>)))
     \<and> map_of (ledger_bound (snd (load_file C t s))) t = Some m
     \<and> calls (snd (load_file C t s)) = calls s @ [GetDataframe t (path m), AddDataToTable (table_of t), Commit]
     \<and> fst (session_commit C (snd (load_file C t s))) = None
     \<and> map_of (ledger_bound (snd (session_commit C (snd (load_file C t s))))) t
         = Some (m\<lparr>processing_status := processed\<rparr>)"
proof -
  let ?s1 = "s\<lparr>calls := calls s @ [GetDataframe t (path m)]\<rparr>"
  obtain s2 where w: "add_data_to_table C df (table_of t) ?s1 = (None, s2)"
    using assms(6) by (metis prod.collapse)
  note r = add_data_to_table_returns[OF w]
  have st: "processing_status m \<noteq> processed"
    using assms(2,3) by (auto simp: read_processing_status_def split: if_splits)
  have b: "t \<in> fst ` set (ledger_bound s)" using assms(5) by simp
  have cur: "current ?s1 t d = m" for d using assms(1) by (simp add: current_def)
  have lb2: "map_of (ledger_bound s2) t = Some m"
  proof -
    have "map_of (ledger_bound s2) t = map_option (current ?s1 t) (map_of (ledger_bound s) t)"
      using r b by (simp add: map_of_rebound del: map_of_append)
    moreover obtain d where "map_of (ledger_bound s) t = Some d"
      using b by (metis domD dom_map_of_conv_image_fst)
    ultimately show ?thesis using cur by simp
  qed
  have b2: "t \<in> fst ` set (ledger_bound s2)"
    using lb2 by (metis domI dom_map_of_conv_image_fst)
  have att: "attached (mark_processed t s2) t"
    using b2 by (simp add: attached_def)
  have l: "load_file C t s = (None, mark_processed t s2)"
    using load_file_write[OF assms(1-4)] w att by (simp add: session_add_file_attached)
  have f2: "files s2 = files s" using r by simp
  have m3: "map_of (files (mark_processed t s2)) t = Some (m\<lparr>processing_status := processed\<rparr>)"
    using assms(1) f2 by (simp add: status_of_mark_processed)
  have c: "session_commit C (mark_processed t s2) =
      (None, (mark_processed t s2)\<lparr>calls := calls s2 @ [Commit],
         ledger_bound := map (\<lambda>(k, d). (k, current (mark_processed t s2) k d)) (ledger_bound s2)
            @ pending_ledger_rows (mark_processed t s2),
         tables := (\<lambda>t'. tables s2 t' @ rows_of t' []), new_files := [], new_rows := []\<rparr>)"
    using r by (simp add: session_commit_def Let_def flush_verdict_def current_def pending_ledger_rows_def)
  have lb4: "map_of (ledger_bound (snd (session_commit C (mark_processed t s2)))) t
      = Some (m\<lparr>processing_status := processed\<rparr>)"
    using c b2 lb2 m3 by (simp add: map_of_rebound current_def del: map_of_append)
  show ?thesis
    using st w r l lb2 m3 c lb4 by simp
qed

text \<open>The users file of the example: rows committed, ledger row still pending.\<close>

theorem status_commit_follows_rows_commit_witness:
  "map_of (files two_files_registered) usagers = Some (discovered ''usagers.csv'' ''h2'')
   \<and> read_processing_status usagers (discovered ''usagers.csv'' ''h2'') two_files_registered = Inr pending
   \<and> pending \<noteq> processed
   \<and> get_dataframe bad_second_row (path (discovered ''usagers.csv'' ''h2'')) = Inr [5]
   \<and> usagers \<in> set (map fst (ledger_bound two_files_registered))
   \<and> fst (add_data_to_table bad_second_row [5] (table_of usagers)
        (two_files_registered\<lparr>calls := calls two_files_registered
           @ [GetDataframe usagers (path (discovered ''usagers.csv'' ''h2''))]\<rparr>)) = None
   \<and> fst (load_file bad_second_row usagers two_files_registered) = None
   \<and> tables (snd (load_file bad_second_row usagers two_files_registered)) Users = [5]
   \<and> map_of (files (snd (load_file bad_second_row usagers two_files_registered))) usagers
       = Some ((discovered ''usagers.csv'' ''h2'')\<lparr>processing_status := processed\<rparr>)
   \<and> map_of (ledger_bound (snd (load_file bad_second_row usagers two_files_registered))) usagers
       = Some (discovered ''usagers.csv'' ''h2'')
   \<and> processing_status (discovered ''usagers.csv'' ''h2'') = pending
   \<and> map_of (ledger_bound (snd (session_commit bad_second_row
          (snd (load_file bad_second_row usagers two_files_registered))))) usagers
       = Some ((discovered ''usagers.csv'' ''h2'')\<lparr>processing_status := processed\<rparr>)"
proof -
  have h1: "map_of (files two_files_registered) usagers = Some (discovered ''usagers.csv'' ''h2'')"
    by code_simp
  have h2: "read_processing_status usagers (discovered ''usagers.csv'' ''h2'') two_files_registered = Inr pending"
    by code_simp
  have h3: "pending \<noteq> processed" by simp
  have h4: "get_dataframe bad_second_row (path (discovered ''usagers.csv'' ''h2'')) = Inr [5]"
    by code_simp
  have h5: "usagers \<in> set (map fst (ledger_bound two_files_registered))"
    by code_simp
  have h6: "fst (add_data_to_table bad_second_row [5] (table_of usagers)
        (two_files_registered\<lparr>calls := calls two_files_registered
           @ [GetDataframe usagers (path (discovered ''usagers.csv'' ''h2''))]\<rparr>)) = None"
    by code_simp
  have t: "tables (snd (load_file bad_second_row usagers two_files_registered)) Users = [5]"
    by code_simp
  have p: "processing_status (discovered ''usagers.csv'' ''h2'') = pending"
    by code_simp
  from status_commit_follows_rows_commit[OF h1 h2 h3 h4 h5 h6] h1 h2 h3 h4 h5 h6 t p
  show ?thesis by blast
qed

subsection \<open>The calls of a run of \<^verbatim>\<open>add_data_to_db\<close>\<close>

lemma loads_append [simp]: "loads (xs @ ys) = loads xs @ loads ys"
  by (induction xs rule: loads.induct) simp_all

lemma writes_append [simp]: "writes (xs @ ys) = writes xs @ writes ys"
  by (induction xs rule: writes.induct) simp_all

lemma calls_since_append: "calls s' = calls s @ evs \<Longrightarrow> calls_since s s' = evs"
  by (simp add: calls_since_def)

lemma calls_since_trans:
  "calls s1 = calls s @ xs \<Longrightarrow> calls s2 = calls s1 @ ys \<Longrightarrow> calls_since s s2 = xs @ ys"
  by (simp add: calls_since_def)

text \<open>the calls of one iteration\<close>

lemma mark_failed_fields [simp]:
  "tables (mark_failed k e s) = tables s"
  "ledger_bound (mark_failed k e s) = ledger_bound s"
  "ledger_detached (mark_failed k e s) = ledger_detached s"
  "calls (mark_failed k e s) = calls s"
  "new_rows (mark_failed k e s) = new_rows s"
  "new_files (mark_failed k e s) = new_files s"
  "inactive (mark_failed k e s) = inactive s"
  by (simp_all add: mark_failed_def update_file_def)

lemma session_add_file_fields [simp]:
  "tables (session_add_file k s) = tables s"
  "ledger_bound (session_add_file k s) = ledger_bound s"
  "ledger_detached (session_add_file k s) = ledger_detached s"
  "calls (session_add_file k s) = calls s"
  "new_rows (session_add_file k s) = new_rows s"
  "inactive (session_add_file k s) = inactive s"
  by (simp_all add: session_add_file_def)

lemma add_data_to_table_calls:
  "\<exists>evs. calls (snd (add_data_to_table C df tm s)) = calls s @ AddDataToTable tm # evs
         \<and> loads evs = [] \<and> writes evs = []"
proof (cases "construct_failure C tm df")
  case None
  then show ?thesis
    by (auto simp: add_data_to_table_constructs session_commit_def Let_def failed_flush_def
        split: option.splits)
next
  case (Some e)
  then show ?thesis by (simp add: add_data_to_table_construct_raises)
qed

lemma eligible_read:
  "map_of (files s) t = Some m \<Longrightarrow> read_processing_status t m s = Inr st \<Longrightarrow>
     eligible s t = (st \<noteq> processed)"
  by (auto simp: eligible_def read_processing_status_def split: if_splits)

lemma load_file_calls:
  "\<exists>evs. calls (snd (load_file C t s)) = calls s @ evs
     \<and> (loads evs = [] \<or> loads evs = [t] \<and> eligible s t)
     \<and> (writes evs = [] \<or> writes evs = [table_of t] \<and> loads evs = [t])
     \<and> (fst (load_file C t s) = None \<longrightarrow> loads evs = (if eligible s t then [t] else []))"
proof (cases "map_of (files s) t")
  case None
  then show ?thesis by (simp add: load_file_def eligible_def)
next
  case (Some m)
  show ?thesis
  proof (cases "read_processing_status t m s")
    case (Inl e)
    with Some show ?thesis by (simp add: load_file_def)
  next
    case (Inr st)
    note el = eligible_read[OF Some Inr]
    show ?thesis
    proof (cases "st = processed")
      case True
      with Some Inr el show ?thesis by (simp add: load_file_def)
    next
      case False
      show ?thesis
      proof (cases "get_dataframe C (path m)")
        case (Inl e)
        with Some Inr False el show ?thesis by (simp add: load_file_def Let_def)
      next
        case df: (Inr df)
        let ?s1 = "s\<lparr>calls := calls s @ [GetDataframe t (path m)]\<rparr>"
        obtain evs where evs: "calls (snd (add_data_to_table C df (table_of t) ?s1))
            = calls ?s1 @ AddDataToTable (table_of t) # evs" "loads evs = []" "writes evs = []"
          using add_data_to_table_calls by blast
        have c: "calls (snd (load_file C t s)) = calls (snd (add_data_to_table C df (table_of t) ?s1))"
          using load_file_write[OF Some Inr False df]
          by (auto split: prod.splits option.splits)
        have "calls (snd (load_file C t s)) = calls s @ (GetDataframe t (path m) # AddDataToTable (table_of t) # evs)"
          using c evs(1) by simp
        moreover have "loads (GetDataframe t (path m) # AddDataToTable (table_of t) # evs) = [t]"
          "writes (GetDataframe t (path m) # AddDataToTable (table_of t) # evs) = [table_of t]"
          using evs by simp_all
        ultimately show ?thesis using el False by metis
      qed
    qed
  qed
qed

lemma load_file_other_descriptor:
  "t' \<noteq> t \<Longrightarrow> map_of (files (snd (load_file C t s))) t' = map_of (files s) t'"
proof (cases "map_of (files s) t")
  case None
  then show ?thesis by (simp add: load_file_def)
next
  case (Some m)
  assume n: "t' \<noteq> t"
  show ?thesis
  proof (cases "read_processing_status t m s")
    case (Inl e)
    with Some show ?thesis by (simp add: load_file_def)
  next
    case (Inr st)
    show ?thesis
    proof (cases "st = processed")
      case True
      with Some Inr show ?thesis by (simp add: load_file_def)
    next
      case False
      show ?thesis
      proof (cases "get_dataframe C (path m)")
        case (Inl e)
        with Some Inr False show ?thesis by (simp add: load_file_def Let_def)
      next
        case df: (Inr df)
        let ?s1 = "s\<lparr>calls := calls s @ [GetDataframe t (path m)]\<rparr>"
        have f: "files (snd (add_data_to_table C df (table_of t) ?s1)) = files s" by simp
        obtain r s2 where w: "add_data_to_table C df (table_of t) ?s1 = (r, s2)" by fastforce
        with f have f2: "files s2 = files s" by simp
        show ?thesis
          using load_file_write[OF Some Inr False df] w f2 n
          by (cases r) (simp_all add: mark_processed_def mark_failed_def map_of_update_file)
      qed
    qed
  qed
qed

lemma load_file_other_eligible:
  "t' \<noteq> t \<Longrightarrow> eligible (snd (load_file C t s)) t' = eligible s t'"
  by (simp add: eligible_def load_file_other_descriptor)

lemma load_files_calls:
  "distinct ts \<Longrightarrow>
   \<exists>evs. calls (snd (load_files C ts s)) = calls s @ evs
     \<and> prefix (loads evs) (filter (eligible s) ts)
     \<and> set (writes evs) \<subseteq> table_of ` set (loads evs)
     \<and> (fst (load_files C ts s) = None \<longrightarrow> loads evs = filter (eligible s) ts)"
proof (induction ts arbitrary: s)
  case Nil
  then show ?case by simp
next
  case (Cons t ts)
  obtain r s1 where l: "load_file C t s = (r, s1)" by fastforce
  obtain xs where xs: "calls s1 = calls s @ xs"
     "loads xs = [] \<or> loads xs = [t] \<and> eligible s t"
     "writes xs = [] \<or> writes xs = [table_of t] \<and> loads xs = [t]"
     "r = None \<longrightarrow> loads xs = (if eligible s t then [t] else [])"
    using load_file_calls[of C t s] l by auto
  have sub: "set (writes xs) \<subseteq> table_of ` set (loads xs)" using xs(3) by auto
  show ?case
  proof (cases r)
    case (Some e)
    have "prefix (loads xs) (filter (eligible s) (t # ts))" using xs(2) by auto
    with Some l xs(1) sub show ?thesis by auto
  next
    case None
    have d: "distinct ts" "t \<notin> set ts" using Cons.prems by simp_all
    obtain ys where ys: "calls (snd (load_files C ts s1)) = calls s1 @ ys"
      "prefix (loads ys) (filter (eligible s1) ts)"
      "set (writes ys) \<subseteq> table_of ` set (loads ys)"
      "fst (load_files C ts s1) = None \<longrightarrow> loads ys = filter (eligible s1) ts"
      using Cons.IH[OF d(1), of s1] by (elim exE conjE) (rule that, assumption+)
    have "eligible s1 x = eligible s x" if "x \<in> set ts" for x
      using that d(2) l load_file_other_eligible[of x t C s] by auto
    then have e: "filter (eligible s1) ts = filter (eligible s) ts"
      by (intro filter_cong) auto
    have lx: "loads xs = (if eligible s t then [t] else [])" using xs(4) None by simp
    have "calls (snd (load_files C (t # ts) s)) = calls s @ (xs @ ys)"
      using l None xs(1) ys(1) by simp
    moreover have "prefix (loads (xs @ ys)) (filter (eligible s) (t # ts))"
      using lx ys(2) e by simp
    moreover have "set (writes (xs @ ys)) \<subseteq> table_of ` set (loads (xs @ ys))"
      using sub ys(3) by auto
    moreover have "fst (load_files C (t # ts) s) = None \<longrightarrow> loads (xs @ ys) = filter (eligible s) (t # ts)"
      using l None lx ys(4) e by simp
    ultimately show ?thesis
      by (intro exI[of _ "xs @ ys"] conjI)
  qed
qed

lemma table_of_eq_iff [simp]: "table_of a = table_of b \<longleftrightarrow> a = b"
  by (cases a; cases b) simp_all

lemma add_data_to_table_other_table:
  assumes "tm' \<noteq> tm" and "rows_of tm (new_rows s) = []"
  shows "rows_of tm (new_rows (snd (add_data_to_table C df tm' s))) = []
       \<and> tables (snd (add_data_to_table C df tm' s)) tm = tables s tm"
proof (cases "construct_failure C tm' df")
  case None
  with assms show ?thesis
    by (auto simp: add_data_to_table_constructs session_commit_def Let_def failed_flush_def
        split: option.splits)
next
  case (Some e)
  with assms show ?thesis by (simp add: add_data_to_table_construct_raises)
qed

lemma load_file_not_eligible: "\<not> eligible s t \<Longrightarrow> snd (load_file C t s) = s"
  by (auto simp: load_file_def eligible_def read_processing_status_def split: option.splits)

lemma load_file_other_table:
  assumes "table_of t' \<noteq> tm" and "rows_of tm (new_rows s) = []"
  shows "rows_of tm (new_rows (snd (load_file C t' s))) = []
       \<and> tables (snd (load_file C t' s)) tm = tables s tm"
proof (cases "map_of (files s) t'")
  case None
  with assms show ?thesis by (simp add: load_file_def)
next
  case (Some m)
  show ?thesis
  proof (cases "read_processing_status t' m s")
    case (Inl e)
    with Some assms show ?thesis by (simp add: load_file_def)
  next
    case (Inr st)
    show ?thesis
    proof (cases "st = processed")
      case True
      with Some Inr assms show ?thesis by (simp add: load_file_def)
    next
      case False
      show ?thesis
      proof (cases "get_dataframe C (path m)")
        case (Inl e)
        with Some Inr False assms show ?thesis by (simp add: load_file_def Let_def)
      next
        case df: (Inr df)
        let ?s1 = "s\<lparr>calls := calls s @ [GetDataframe t' (path m)]\<rparr>"
        have "rows_of tm (new_rows ?s1) = []" using assms(2) by simp
        from add_data_to_table_other_table[OF assms(1) this, of C df]
        have a: "rows_of tm (new_rows (snd (add_data_to_table C df (table_of t') ?s1))) = []"
          "tables (snd (add_data_to_table C df (table_of t') ?s1)) tm = tables s tm"
          by simp_all
        obtain r s2 where w: "add_data_to_table C df (table_of t') ?s1 = (r, s2)" by fastforce
        show ?thesis
          using load_file_write[OF Some Inr False df] w a
          by (cases r) simp_all
      qed
    qed
  qed
qed

lemma load_files_skip_descriptor:
  assumes "\<not> eligible s t"
  shows "map_of (files (snd (load_files C ts s))) t = map_of (files s) t"
  using assms
proof (induction ts arbitrary: s)
  case Nil
  then show ?case by simp
next
  case (Cons t' ts)
  obtain r s1 where l: "load_file C t' s = (r, s1)" by fastforce
  have s1: "\<not> eligible s1 t \<and> map_of (files s1) t = map_of (files s) t"
  proof (cases "t' = t")
    case True
    with Cons.prems l load_file_not_eligible[of s t C] show ?thesis by simp
  next
    case False
    with l load_file_other_eligible[of t t' C s] load_file_other_descriptor[of t t' C s] Cons.prems
    show ?thesis by auto
  qed
  show ?case
  proof (cases r)
    case None
    with l Cons.IH[of s1] s1 show ?thesis by simp
  next
    case (Some e)
    with l s1 show ?thesis by simp
  qed
qed

lemma load_files_skip_table:
  assumes "\<not> eligible s t" and "rows_of (table_of t) (new_rows s) = []"
  shows "tables (snd (load_files C ts s)) (table_of t) = tables s (table_of t)"
  using assms
proof (induction ts arbitrary: s)
  case Nil
  then show ?case by simp
next
  case (Cons t' ts)
  obtain r s1 where l: "load_file C t' s = (r, s1)" by fastforce
  have s1: "\<not> eligible s1 t \<and> rows_of (table_of t) (new_rows s1) = []
      \<and> tables s1 (table_of t) = tables s (table_of t)"
  proof (cases "t' = t")
    case True
    with Cons.prems l load_file_not_eligible[of s t C] show ?thesis by simp
  next
    case False
    then have "table_of t' \<noteq> table_of t" by simp
    from load_file_other_table[OF this Cons.prems(2), of C] l
      load_file_other_eligible[of t t' C s] False Cons.prems(1)
    show ?thesis by auto
  qed
  show ?case
  proof (cases r)
    case None
    with l Cons.IH[of s1] s1 show ?thesis by simp
  next
    case (Some e)
    with l s1 show ?thesis by simp
  qed
qed

lemma calls_add_data_to_db:
  "\<exists>evs. calls (snd (add_data_to_db C s)) = calls s @ evs
     \<and> prefix (loads evs) (filter (eligible s) order_files)
     \<and> set (writes evs) \<subseteq> table_of ` set (loads evs)
     \<and> (fst (add_data_to_db C s) = None \<longrightarrow> loads evs = filter (eligible s) order_files)"
  unfolding add_data_to_db_def by (rule load_files_calls) (simp add: order_files_def)

text \<open>
  Claim C6. For a descriptor that is marked processed, \<^verbatim>\<open>add_data_to_db\<close> requests
  no dataframe and writes to no table for its logical type, whatever happens to the
  other files: the descriptor is left as it is, and its table is unchanged by the run
  (provided the session held no pending row of that table before the call). Every
  logical type a dataframe is requested for is in the dict and was not marked processed.
\<close>

theorem processed_files_are_not_reloaded:
  assumes "map_of (files s) t = Some m" and "processing_status m = processed"
  shows "t \<notin> set (loads (calls_since s (snd (add_data_to_db C s))))
     \<and> table_of t \<notin> set (writes (calls_since s (snd (add_data_to_db C s))))
     \<and> map_of (files (snd (add_data_to_db C s))) t = Some m
     \<and> (rows_of (table_of t) (new_rows s) = [] \<longrightarrow>
          tables (snd (add_data_to_db C s)) (table_of t) = tables s (table_of t))
     \<and> (\<forall>t' \<in> set (loads (calls_since s (snd (add_data_to_db C s)))). eligible s t')"
proof -
  obtain evs where evs: "calls (snd (add_data_to_db C s)) = calls s @ evs"
     "prefix (loads evs) (filter (eligible s) order_files)"
     "set (writes evs) \<subseteq> table_of ` set (loads evs)"
    using calls_add_data_to_db[of C s] by (elim exE conjE) (rule that, assumption+)
  have cs: "calls_since s (snd (add_data_to_db C s)) = evs"
    using evs(1) by (rule calls_since_append)
  have ne: "\<not> eligible s t" using assms by (simp add: eligible_def)
  have sub: "set (loads evs) \<subseteq> set (filter (eligible s) order_files)"
    using evs(2) by (rule set_mono_prefix)
  then have el: "\<forall>t' \<in> set (loads evs). eligible s t'" by auto
  with ne have nl: "t \<notin> set (loads evs)" by blast
  with evs(3) have nw: "table_of t \<notin> set (writes evs)" by auto
  have f: "map_of (files (snd (add_data_to_db C s))) t = Some m"
    using load_files_skip_descriptor[OF ne, of C order_files] assms(1)
    by (simp add: add_data_to_db_def)
  have tb: "tables (snd (add_data_to_db C s)) (table_of t) = tables s (table_of t)"
    if "rows_of (table_of t) (new_rows s) = []"
    using load_files_skip_table[OF ne that, of C order_files] by (simp add: add_data_to_db_def)
  show ?thesis using cs nl nw f tb el by simp
qed

text \<open>
  Users already processed, vehicles failing: only vehicles is loaded, and the users table
  stays as it was.
\<close>

theorem processed_files_are_not_reloaded_witness:
  "map_of (files users_processed) usagers = Some ((discovered ''usagers.csv'' ''h2'')\<lparr>processing_status := processed\<rparr>)
   \<and> processing_status ((discovered ''usagers.csv'' ''h2'')\<lparr>processing_status := processed\<rparr>) = processed
   \<and> rows_of (table_of usagers) (new_rows users_processed) = []
   \<and> usagers \<notin> set (loads (calls_since users_processed (snd (add_data_to_db bad_second_row users_processed))))
   \<and> table_of usagers \<notin> set (writes (calls_since users_processed (snd (add_data_to_db bad_second_row users_processed))))
   \<and> tables (snd (add_data_to_db bad_second_row users_processed)) (table_of usagers) = tables users_processed (table_of usagers)
   \<and> loads (calls_since users_processed (snd (add_data_to_db bad_second_row users_processed))) = [vehicules]
   \<and> status_of (snd (add_data_to_db bad_second_row users_processed)) vehicules = Some failed
   \<and> status_of (snd (add_data_to_db bad_second_row users_processed)) usagers = Some processed"
proof -
  have h1: "map_of (files users_processed) usagers = Some ((discovered ''usagers.csv'' ''h2'')\<lparr>processing_status := processed\<rparr>)"
    by code_simp
  have h2: "processing_status ((discovered ''usagers.csv'' ''h2'')\<lparr>processing_status := processed\<rparr>) = processed"
    by simp
  have h3: "rows_of (table_of usagers) (new_rows users_processed) = []"
    by code_simp
  have e: "loads (calls_since users_processed (snd (add_data_to_db bad_second_row users_processed))) = [vehicules]"
    "status_of (snd (add_data_to_db bad_second_row users_processed)) vehicules = Some failed"
    "status_of (snd (add_data_to_db bad_second_row users_processed)) usagers = Some processed"
    by code_simp+
  from processed_files_are_not_reloaded[OF h1 h2, of bad_second_row] h1 h2 h3 e
  show ?thesis by blast
qed

subsection \<open>The order of the loads\<close>

lemma same_dict_refl [simp]: "same_dict s s"
  by (simp add: same_dict_def)










end
